theory Spec2Isabelle
  imports Complex_Main "HOL-Library.Sublist"
begin

section \<open>Strings of the program\<close>

text \<open>
  A Python \<open>str\<close> is modelled as a HOL \<open>string\<close>. A HOL character is read as the
  Unicode code point of the same number, so the model covers the code points 0..255
  (ASCII and Latin-1). On this range \<open>str.lower\<close> works character by character.
\<close>

definition code :: "char \<Rightarrow> nat" where
  "code c = of_char c"

text \<open>
  \<open>string.punctuation\<close> of the Python standard library: the 32 ASCII characters
  \<^verbatim>\<open>!"#$%&'()*+,-./:;<=>?@[\]^_`{|}~\<close> in this order.
\<close>

definition punctuation :: string where
  "punctuation =
     [CHR 0x21, CHR 0x22, CHR 0x23, CHR 0x24, CHR 0x25, CHR 0x26, CHR 0x27, CHR 0x28,
      CHR 0x29, CHR 0x2A, CHR 0x2B, CHR 0x2C, CHR 0x2D, CHR 0x2E, CHR 0x2F,
      CHR 0x3A, CHR 0x3B, CHR 0x3C, CHR 0x3D, CHR 0x3E, CHR 0x3F, CHR 0x40,
      CHR 0x5B, CHR 0x5C, CHR 0x5D, CHR 0x5E, CHR 0x5F, CHR 0x60,
      CHR 0x7B, CHR 0x7C, CHR 0x7D, CHR 0x7E]"

text \<open>
  \<open>str.maketrans(x, y, z)\<close> builds a table: the characters of \<open>z\<close> are mapped to
  \<open>None\<close> (deleted), the characters of \<open>x\<close> to the characters of \<open>y\<close> at the same
  position (a later pair overrides an earlier one). \<open>str.translate\<close> looks every
  character up: a character without an entry is kept, one mapped to \<open>None\<close> is dropped.
\<close>

definition maketrans :: "string \<Rightarrow> string \<Rightarrow> string \<Rightarrow> (char \<rightharpoonup> char option)" where
  "maketrans x y z =
     (\<lambda>c. if c \<in> set z then Some None
          else map_option Some (map_of (rev (zip x y)) c))"

fun translate :: "(char \<rightharpoonup> char option) \<Rightarrow> string \<Rightarrow> string" where
  "translate table [] = []"
| "translate table (c # cs) =
     (case table c of
        None \<Rightarrow> c # translate table cs
      | Some None \<Rightarrow> translate table cs
      | Some (Some d) \<Rightarrow> d # translate table cs)"

text \<open>
  \<open>str.lower\<close> on the code points 0..255: the letters A..Z and the Latin-1 capitals
  U+00C0..U+00DE (without the multiplication sign U+00D7) move up by 32, every other
  character is unchanged.
\<close>

definition lower_char :: "char \<Rightarrow> char" where
  "lower_char c =
     (if (65 \<le> code c \<and> code c \<le> 90) \<or> (192 \<le> code c \<and> code c \<le> 222 \<and> code c \<noteq> 215)
      then char_of (code c + 32) else c)"

definition lower :: "string \<Rightarrow> string" where
  "lower s = map lower_char s"

text \<open>
  \<open>str.isspace\<close> on the code points 0..255: tab to carriage return, the four
  separators U+001C..U+001F, the space, U+0085 and U+00A0.
\<close>

definition isspace :: "char \<Rightarrow> bool" where
  "isspace c \<longleftrightarrow>
     (9 \<le> code c \<and> code c \<le> 13) \<or> (28 \<le> code c \<and> code c \<le> 32) \<or> code c = 133 \<or> code c = 160"

text \<open>
  \<open>str.split()\<close> without arguments: the maximal runs of characters that are not
  whitespace, in order; no empty token is produced. \<open>split_ws cur s\<close> scans \<open>s\<close> with the
  token under construction \<open>cur\<close>.
\<close>

fun split_ws :: "string \<Rightarrow> string \<Rightarrow> string list" where
  "split_ws cur [] = (if cur = [] then [] else [cur])"
| "split_ws cur (c # cs) =
     (if isspace c then (if cur = [] then split_ws [] cs else cur # split_ws [] cs)
      else split_ws (cur @ [c]) cs)"

definition split :: "string \<Rightarrow> string list" where
  "split s = split_ws [] s"

text \<open>\<open>sep.join(xs)\<close>.\<close>

fun join :: "string \<Rightarrow> string list \<Rightarrow> string" where
  "join sep [] = []"
| "join sep [x] = x"
| "join sep (x # y # ys) = x @ sep @ join sep (y # ys)"

section \<open>Text normaliser and pronunciation scorer\<close>

text \<open>
  \<^verbatim>\<open>
  def normalize_text(text):
      return text.translate(str.maketrans('', '', string.punctuation)).lower()
  \<close>
\<close>

definition normalize_text :: "string \<Rightarrow> string" where
  "normalize_text text = lower (translate (maketrans [] [] punctuation) text)"

text \<open>
  \<open>termcolor.colored(text, color)\<close> with colours enabled: the ANSI escape sequence of
  the colour, the text, the reset sequence. Only the two colours of the program occur.
\<close>

datatype color = Red | Green

definition color_code :: "color \<Rightarrow> string" where
  "color_code c = (case c of Red \<Rightarrow> ''31'' | Green \<Rightarrow> ''32'')"

definition colored :: "string \<Rightarrow> color \<Rightarrow> string" where
  "colored text c = [CHR 0x1B] @ ''['' @ color_code c @ ''m'' @ text @ [CHR 0x1B] @ ''[0m''"

text \<open>
  \<^verbatim>\<open>
  def evaluate_pronunciation(transcribed_text, correct_text):
      transcribed_words = normalize_text(transcribed_text).split()
      correct_words = normalize_text(correct_text).split()
      mistakes = [(w1, w2) for w1, w2 in zip(transcribed_words, correct_words) if w1 != w2]
      highlighted_text = " ".join(
          [colored(w, "red") if w1 != w2 else colored(w, "green")
           for w, w1, w2 in zip(transcribed_words, transcribed_words, correct_words)])
      return mistakes, highlighted_text
  \<close>
  Python's \<open>zip\<close> of three lists stops at the shortest one, as the nested \<open>zip\<close> does.
\<close>

definition evaluate_pronunciation :: "string \<Rightarrow> string \<Rightarrow> (string \<times> string) list \<times> string" where
  "evaluate_pronunciation transcribed_text correct_text =
     (let transcribed_words = split (normalize_text transcribed_text);
          correct_words = split (normalize_text correct_text);
          mistakes = [(w1, w2). (w1, w2) \<leftarrow> zip transcribed_words correct_words, w1 \<noteq> w2];
          highlighted_text = join '' ''
            [if w1 \<noteq> w2 then colored w Red else colored w Green.
             (w, w1, w2) \<leftarrow> zip transcribed_words (zip transcribed_words correct_words)]
      in (mistakes, highlighted_text))"

text \<open>
  The mismatches as the specification words them: the pairs (transcribed token \<open>i\<close>,
  expected token \<open>i\<close>) for the positions \<open>i\<close> below the length of the shorter token
  sequence at which the two tokens differ, in increasing order of \<open>i\<close>.
\<close>

definition mismatches_spec :: "string list \<Rightarrow> string list \<Rightarrow> (string \<times> string) list" where
  "mismatches_spec transcribed expected =
     [(transcribed ! i, expected ! i).
        i \<leftarrow> [0..<min (length transcribed) (length expected)], transcribed ! i \<noteq> expected ! i]"

section \<open>Numbers and errors\<close>

text \<open>
  Python's floats are binary floating-point numbers. The definitions of this section
  compute with exact reals; they give the program's value where the float computation is
  exact, which is the only place where they are used below: a word count of zero for the
  duration estimator, and times that are multiples of a quarter of a second in the scenarios
  of the word segmenter. An exception of the program is a value of the type \<open>py_error\<close>;
  a function that can raise returns \<open>py_error + 'a\<close>.
\<close>

datatype py_error =
    ZeroDivisionError
  | ValueError
  | OSError
  | FileNotFoundError
  | FileExistsError
  | NotADirectoryError
  | IsADirectoryError
  | CouldntDecodeError
  | TooManyMissingFrames
  | OverflowError

text \<open>\<open>round(x)\<close>: the nearest integer, a tie going to the even neighbour.\<close>

definition py_round :: "real \<Rightarrow> int" where
  "py_round x =
     (let f = \<lfloor>x\<rfloor>; d = x - of_int f
      in if d < 1 / 2 then f else if 1 / 2 < d then f + 1 else if even f then f else f + 1)"

text \<open>\<open>round(x, ndigits)\<close> for a float \<open>x\<close> and \<open>ndigits \<ge> 0\<close>.\<close>

definition round_ndigits :: "real \<Rightarrow> nat \<Rightarrow> real" where
  "round_ndigits x ndigits = of_int (py_round (x * 10 ^ ndigits)) / 10 ^ ndigits"

text \<open>\<open>int(x)\<close> for a float \<open>x\<close>: truncation towards zero.\<close>

definition py_int :: "real \<Rightarrow> int" where
  "py_int x = (if 0 \<le> x then \<lfloor>x\<rfloor> else \<lceil>x\<rceil>)"

text \<open>\<open>str(n)\<close> for an integer \<open>n \<ge> 0\<close>: its decimal digits.\<close>

fun str_nat :: "nat \<Rightarrow> string" where
  "str_nat n =
     (if n < 10 then [char_of (48 + n)] else str_nat (n div 10) @ [char_of (48 + n mod 10)])"

section \<open>Duration estimator\<close>

text \<open>
  \<^verbatim>\<open>
  def calculate_dynamic_duration(text):
      return max(round(len(text.split()) / WORDS_PER_SECOND, 2), MIN_RECORD_DURATION)
  \<close>
  The two globals are parameters of the model: \<open>WORDS_PER_SECOND\<close> is a float,
  \<open>MIN_RECORD_DURATION\<close> an integer. A float division by zero raises.
\<close>

definition calculate_dynamic_duration :: "real \<Rightarrow> int \<Rightarrow> string \<Rightarrow> py_error + real" where
  "calculate_dynamic_duration WORDS_PER_SECOND MIN_RECORD_DURATION text =
     (if WORDS_PER_SECOND = 0 then Inl ZeroDivisionError
      else Inr (max (round_ndigits (real (length (split text)) / WORDS_PER_SECOND) 2)
                    (of_int MIN_RECORD_DURATION)))"

section \<open>Files and audio\<close>

text \<open>
  An audio segment of \<open>pydub\<close>: the frame rate and the frames (mono, one sample each).
\<close>

record audio_segment =
  frame_rate :: nat
  frames :: "int list"

text \<open>
  The file system is that of a Linux machine, without symbolic links and with every entry
  open to the program: names are case sensitive and encoded in UTF-8, a name has at most
  255 bytes and a path at most 4095.
  It maps a path, resolved to its list of components, to a directory or to a file; a file
  holds a WAV recording (\<open>Some\<close>) or other data (\<open>None\<close>). Paths are resolved by their
  text: \<open>/\<close> separates components, empty components and \<open>.\<close> are skipped, and the
  working directory is the root of the model. The root is a directory and has no entry of
  its own. The properties below are about plain names in the working directory, for which
  this resolution is the one of the operating system.
\<close>

type_synonym path = "string list"

datatype node = Dir | File "audio_segment option"

type_synonym filesystem = "path \<rightharpoonup> node"

fun split_sep :: "char \<Rightarrow> string \<Rightarrow> string list" where
  "split_sep sep [] = [[]]"
| "split_sep sep (c # cs) =
     (if c = sep then [] # split_sep sep cs
      else (case split_sep sep cs of [] \<Rightarrow> [[c]] | p # ps \<Rightarrow> (c # p) # ps))"

definition components :: "string \<Rightarrow> path" where
  "components p = filter (\<lambda>c. c \<noteq> [] \<and> c \<noteq> ''.'') (split_sep CHR ''/'' p)"

text \<open>The number of bytes of a string in UTF-8, for the code points 0..255.\<close>

definition utf8_length :: "string \<Rightarrow> nat" where
  "utf8_length s = sum_list (map (\<lambda>c. if code c < 128 then 1 else 2) s)"

text \<open>A path or one of its components is too long for the operating system.\<close>

definition too_long :: "string \<Rightarrow> bool" where
  "too_long p \<longleftrightarrow>
     4095 < utf8_length p \<or> (\<exists>c \<in> set (split_sep CHR ''/'' p). 255 < utf8_length c)"

text \<open>
  A plain name: a single component that names an entry of the directory it is used in.
\<close>

definition plain_name :: "string \<Rightarrow> bool" where
  "plain_name c \<longleftrightarrow>
     c \<noteq> [] \<and> c \<noteq> ''.'' \<and> c \<noteq> ''..'' \<and> CHR ''/'' \<notin> set c \<and> CHR 0x00 \<notin> set c \<and>
     utf8_length c \<le> 255"

text \<open>What a path names: nothing for the empty path, the root, or the entry.\<close>

definition lookup :: "filesystem \<Rightarrow> string \<Rightarrow> node option" where
  "lookup fs p =
     (if p = [] \<or> CHR 0x00 \<in> set p \<or> too_long p then None
      else if components p = [] then Some Dir
      else fs (components p))"

text \<open>\<open>os.path.exists(p)\<close>.\<close>

definition path_exists :: "filesystem \<Rightarrow> string \<Rightarrow> bool" where
  "path_exists fs p \<longleftrightarrow> lookup fs p \<noteq> None"

text \<open>\<open>os.path.join(a, b)\<close>.\<close>

definition path_join :: "string \<Rightarrow> string \<Rightarrow> string" where
  "path_join a b =
     (if b \<noteq> [] \<and> hd b = CHR ''/'' then b
      else if a = [] \<or> last a = CHR ''/'' then a @ b
      else a @ ''/'' @ b)"

text \<open>
  \<open>shutil.rmtree(p)\<close>: removes the directory and everything below it. The working
  directory itself cannot be removed: its contents go and the call raises.
\<close>

definition rmtree :: "filesystem \<Rightarrow> string \<Rightarrow> (py_error + unit) \<times> filesystem" where
  "rmtree fs p =
     (if CHR 0x00 \<in> set p then (Inl ValueError, fs)
      else if too_long p then (Inl OSError, fs)
      else case lookup fs p of
        None \<Rightarrow> (Inl FileNotFoundError, fs)
      | Some (File _) \<Rightarrow> (Inl NotADirectoryError, fs)
      | Some Dir \<Rightarrow>
          if components p = [] then (Inl OSError, Map.empty)
          else (Inr (), (\<lambda>q. if prefix (components p) q then None else fs q)))"

text \<open>
  \<open>os.makedirs(p, exist_ok=True)\<close>: creates the missing directories along the path, one
  component after the other. \<open>mkdirs_from base cs fs\<close> has reached \<open>base\<close> and still
  has the components \<open>cs\<close> to go.
\<close>

fun mkdirs_from :: "path \<Rightarrow> string list \<Rightarrow> filesystem \<Rightarrow> (py_error + unit) \<times> filesystem" where
  "mkdirs_from base [] fs = (Inr (), fs)"
| "mkdirs_from base (c # cs) fs =
     (case fs (base @ [c]) of
        None \<Rightarrow> mkdirs_from (base @ [c]) cs (fs(base @ [c] \<mapsto> Dir))
      | Some Dir \<Rightarrow> mkdirs_from (base @ [c]) cs fs
      | Some (File _) \<Rightarrow> (Inl (if cs = [] then FileExistsError else NotADirectoryError), fs))"

definition makedirs :: "filesystem \<Rightarrow> string \<Rightarrow> (py_error + unit) \<times> filesystem" where
  "makedirs fs p =
     (if p = [] then (Inl FileNotFoundError, fs)
      else if CHR 0x00 \<in> set p then (Inl ValueError, fs)
      else if too_long p then (Inl OSError, fs)
      else mkdirs_from [] (components p) fs)"

text \<open>\<open>AudioSegment.from_wav(p)\<close>: reads a WAV file.\<close>

definition from_wav :: "filesystem \<Rightarrow> string \<Rightarrow> py_error + audio_segment" where
  "from_wav fs p =
     (if CHR 0x00 \<in> set p then Inl ValueError
      else if too_long p then Inl OSError
      else case lookup fs p of
        None \<Rightarrow> Inl FileNotFoundError
      | Some Dir \<Rightarrow> Inl IsADirectoryError
      | Some (File None) \<Rightarrow> Inl CouldntDecodeError
      | Some (File (Some audio)) \<Rightarrow> Inr audio)"

text \<open>
  \<open>segment.export(p, format="wav")\<close>: opens \<open>p\<close> for writing and writes the segment as
  a WAV file. The directory of \<open>p\<close> must exist, and \<open>p\<close> must not name a directory.
\<close>

definition export :: "filesystem \<Rightarrow> string \<Rightarrow> audio_segment \<Rightarrow> py_error + filesystem" where
  "export fs p segment =
     (if CHR 0x00 \<in> set p then Inl ValueError
      else if too_long p then Inl OSError
      else if p = [] then Inl FileNotFoundError
      else if components p = [] then Inl IsADirectoryError
      else if butlast (components p) \<noteq> [] \<and> fs (butlast (components p)) = None
        then Inl FileNotFoundError
      else if butlast (components p) \<noteq> [] \<and> fs (butlast (components p)) \<noteq> Some Dir
        then Inl NotADirectoryError
      else if fs (components p) = Some Dir then Inl IsADirectoryError
      else Inr (fs(components p \<mapsto> File (Some segment))))"

text \<open>
  A file system is well formed when every entry has a path of plain names and lies in a
  directory: the proper ancestors of an entry, the root apart, are directories.
\<close>

definition wf_fs :: "filesystem \<Rightarrow> bool" where
  "wf_fs fs \<longleftrightarrow>
     (\<forall>q. fs q \<noteq> None \<longrightarrow>
        q \<noteq> [] \<and> (\<forall>c \<in> set q. plain_name c) \<and>
        (\<forall>p. strict_prefix p q \<and> p \<noteq> [] \<longrightarrow> fs p = Some Dir))"

section \<open>Word segmenter\<close>

text \<open>
  An entry of the transcriber's word list: the keys \<open>"word"\<close>, \<open>"start"\<close> and \<open>"end"\<close>
  of the dictionary. The times are Python floats, in seconds; the model leaves their type
  \<open>'t\<close> open.
\<close>

record 't word_timing =
  w_word :: string
  w_start :: 't
  w_end :: 't

text \<open>
  Two operations of the loop are not the program's own and are parameters of the model:
  \<open>to_ms\<close> stands for the float computation \<open>int(x * 1000)\<close>, which raises when the
  product is not finite, and \<open>getitem\<close> for the slice \<open>audio[a:b]\<close> of the audio library,
  which raises when too many frames are missing. What is proved for every \<open>to_ms\<close> and
  every \<open>getitem\<close> holds for the two operations of the interpreter and the library.

  \<^verbatim>\<open>segment = audio[int(word["start"] * 1000):int(word["end"] * 1000)]\<close>
\<close>

definition word_segment ::
  "('t \<Rightarrow> py_error + int) \<Rightarrow> (audio_segment \<Rightarrow> int \<Rightarrow> int \<Rightarrow> py_error + audio_segment) \<Rightarrow>
     audio_segment \<Rightarrow> 't word_timing \<Rightarrow> py_error + audio_segment" where
  "word_segment to_ms getitem audio word =
     (case to_ms (w_start word) of
        Inl e \<Rightarrow> Inl e
      | Inr a \<Rightarrow>
          (case to_ms (w_end word) of
             Inl e \<Rightarrow> Inl e
           | Inr b \<Rightarrow> getitem audio a b))"

definition word_file_name :: "nat \<Rightarrow> 't word_timing \<Rightarrow> string" where
  "word_file_name i word = ''word_'' @ str_nat (i + 1) @ ''_'' @ w_word word @ ''.wav''"

text \<open>
  \<^verbatim>\<open>
  for i, word in enumerate(words):
      segment = audio[int(word["start"] * 1000):int(word["end"] * 1000)]
      output_file = os.path.join(OUTPUT_DIR, f"word_{i + 1}_{word['word']}.wav")
      segment.export(output_file, format="wav")
      word_files.append(output_file)
  return word_files
  \<close>
  The loop from index \<open>i\<close> on, with the list \<open>word_files\<close> built so far. An exception
  leaves the loop at once; the files written before stay.
\<close>

fun export_words ::
  "('t \<Rightarrow> py_error + int) \<Rightarrow> (audio_segment \<Rightarrow> int \<Rightarrow> int \<Rightarrow> py_error + audio_segment) \<Rightarrow>
     string \<Rightarrow> audio_segment \<Rightarrow> nat \<Rightarrow> 't word_timing list \<Rightarrow> string list \<Rightarrow> filesystem \<Rightarrow>
     (py_error + string list) \<times> filesystem" where
  "export_words to_ms getitem OUTPUT_DIR audio i [] word_files fs = (Inr word_files, fs)"
| "export_words to_ms getitem OUTPUT_DIR audio i (word # words) word_files fs =
     (case word_segment to_ms getitem audio word of
        Inl e \<Rightarrow> (Inl e, fs)
      | Inr segment \<Rightarrow>
          (let output_file = path_join OUTPUT_DIR (word_file_name i word)
           in case export fs output_file segment of
                Inl e \<Rightarrow> (Inl e, fs)
              | Inr fs' \<Rightarrow>
                  export_words to_ms getitem OUTPUT_DIR audio (i + 1) words
                    (word_files @ [output_file]) fs'))"

text \<open>
  \<^verbatim>\<open>
  def split_audio_per_word(audio_file, words):
      if os.path.exists(OUTPUT_DIR):
          shutil.rmtree(OUTPUT_DIR)
      os.makedirs(OUTPUT_DIR, exist_ok=True)
      audio = AudioSegment.from_wav(audio_file)
      word_files = []
      for i, word in enumerate(words): ...
      return word_files
  \<close>
  The global \<open>OUTPUT_DIR\<close> (\<open>"split_audio"\<close> unless the environment sets another) and
  the file system are parameters; the file system after the call is returned with the
  result. The main loop calls the function with the audio file \<open>"recorded_audio.wav"\<close>.
\<close>

definition split_audio_per_word ::
  "('t \<Rightarrow> py_error + int) \<Rightarrow> (audio_segment \<Rightarrow> int \<Rightarrow> int \<Rightarrow> py_error + audio_segment) \<Rightarrow>
     string \<Rightarrow> filesystem \<Rightarrow> string \<Rightarrow> 't word_timing list \<Rightarrow>
     (py_error + string list) \<times> filesystem" where
  "split_audio_per_word to_ms getitem OUTPUT_DIR fs audio_file words =
     (case (if path_exists fs OUTPUT_DIR then rmtree fs OUTPUT_DIR else (Inr (), fs)) of
        (Inl e, fs1) \<Rightarrow> (Inl e, fs1)
      | (Inr _, fs1) \<Rightarrow>
          (case makedirs fs1 OUTPUT_DIR of
             (Inl e, fs2) \<Rightarrow> (Inl e, fs2)
           | (Inr _, fs2) \<Rightarrow>
               (case from_wav fs2 audio_file of
                  Inl e \<Rightarrow> (Inl e, fs2)
                | Inr audio \<Rightarrow> export_words to_ms getitem OUTPUT_DIR audio 0 words [] fs2)))"

section \<open>Scenarios\<close>

text \<open>
  The scenarios run the segmenter with the two operations as the interpreter and the
  library carry them out on the scenarios' values. The times are multiples of a quarter of
  a second between -2 and 1, and the recording has eight frames per second; on these
  values every float computation of the two operations gives the result of the exact one
  below (\<open>0.5 * 1000\<close> is \<open>500.0\<close>, \<open>500 * (8 / 1000.0)\<close> is \<open>4.0\<close>). They are not
  models of the two operations on other values.

  \<open>int(x * 1000)\<close> with the exact product.
\<close>

definition int_ms :: "real \<Rightarrow> py_error + int" where
  "int_ms x = Inr (py_int (x * 1000))"

text \<open>
  \<open>len(audio)\<close>, the length in milliseconds:
  \<^verbatim>\<open>round(1000 * (self.frame_count() / self.frame_rate))\<close>.
\<close>

definition len_ms :: "audio_segment \<Rightarrow> py_error + int" where
  "len_ms audio =
     (if frame_rate audio = 0 then Inl ZeroDivisionError
      else Inr (py_round (1000 * (real (length (frames audio)) / real (frame_rate audio)))))"

text \<open>\<open>audio.frame_count(ms)\<close>: \<^verbatim>\<open>ms * (self.frame_rate / 1000.0)\<close>.\<close>

definition frame_count :: "audio_segment \<Rightarrow> int \<Rightarrow> real" where
  "frame_count audio ms = of_int ms * (real (frame_rate audio) / 1000)"

text \<open>
  \<^verbatim>\<open>
  def _parse_position(self, val):
      if val < 0:
          val = len(self) - abs(val)
      val = self.frame_count(ms=len(self)) if val == float("inf") else self.frame_count(ms=val)
      return int(val)
  \<close>
  The position is an integer here, never infinite; \<open>n\<close> is \<open>len(self)\<close>.
\<close>

definition parse_position :: "audio_segment \<Rightarrow> int \<Rightarrow> int \<Rightarrow> int" where
  "parse_position audio n val =
     py_int (frame_count audio (if val < 0 then n - \<bar>val\<bar> else val))"

text \<open>
  A Python slice \<open>xs[i:j]\<close> of a sequence: a negative index counts from the end, and
  both indices are clamped to the sequence.
\<close>

definition slice_index :: "nat \<Rightarrow> int \<Rightarrow> nat" where
  "slice_index n i = (if i < 0 then nat (max 0 (int n + i)) else min n (nat i))"

definition py_slice :: "'a list \<Rightarrow> int \<Rightarrow> int \<Rightarrow> 'a list" where
  "py_slice xs i j =
     take (slice_index (length xs) j - slice_index (length xs) i)
       (drop (slice_index (length xs) i) xs)"

text \<open>
  \<open>audio[start:end]\<close>, from \<open>AudioSegment.__getitem__\<close> of pydub for a slice without step:
  \<^verbatim>\<open>
  start = min(start, len(self))
  end = min(end, len(self))
  start = self._parse_position(start) * self.frame_width
  end = self._parse_position(end) * self.frame_width
  data = self._data[start:end]
  expected_length = end - start
  missing_frames = (expected_length - len(data)) // self.frame_width
  if missing_frames:
      if missing_frames > self.frame_count(ms=2):
          raise TooManyMissingFrames(...)
      silence = audioop.mul(data[:self.frame_width], self.sample_width, 0)
      data += (silence * missing_frames)
  return self._spawn(data)
  \<close>
  The model counts frames where the library counts bytes.
\<close>

definition getitem_slice :: "audio_segment \<Rightarrow> int \<Rightarrow> int \<Rightarrow> py_error + audio_segment" where
  "getitem_slice audio start end =
     (case len_ms audio of
        Inl e \<Rightarrow> Inl e
      | Inr n \<Rightarrow>
          (let s = parse_position audio n (min start n);
               e = parse_position audio n (min end n);
               data = py_slice (frames audio) s e;
               missing_frames = (e - s) - int (length data)
           in if missing_frames \<noteq> 0 then
                if frame_count audio 2 < of_int missing_frames then Inl TooManyMissingFrames
                else Inr (audio\<lparr>frames :=
                       data @ concat (replicate (nat missing_frames) (map (\<lambda>x. 0) (take 1 data)))\<rparr>)
              else Inr (audio\<lparr>frames := data\<rparr>)))"

text \<open>
  A recording of one second, a file system with this recording and an output directory
  left over from an earlier call, the two words of the specification's scenario, and three
  words of which the second starts a second and a half before the recording.
\<close>

definition one_second :: audio_segment where
  "one_second = \<lparr>frame_rate = 8, frames = [1, 2, 3, 4, 5, 6, 7, 8]\<rparr>"

definition recorded :: filesystem where
  "recorded =
     [[''recorded_audio.wav''] \<mapsto> File (Some one_second),
      [''split_audio''] \<mapsto> Dir,
      [''split_audio'', ''word_1_old.wav''] \<mapsto> File None]"

definition hi_there :: "real word_timing list" where
  "hi_there =
     [\<lparr>w_word = ''hi'', w_start = 0, w_end = 1 / 2\<rparr>,
      \<lparr>w_word = ''there'', w_start = 1 / 2, w_end = 1\<rparr>]"


section \<open>Properties of the text normaliser and the scorer\<close>

lemma translate_delete: "translate (maketrans [] [] z) s = filter (\<lambda>c. c \<notin> set z) s"
  by (induction s) (simp_all add: maketrans_def)

lemma normalize_text_eq:
  "normalize_text s = map lower_char (filter (\<lambda>c. c \<notin> set punctuation) s)"
  by (simp add: normalize_text_def lower_def translate_delete)

lemma code_inj: "code c = code d \<longleftrightarrow> c = d"
  by (simp add: code_def)

lemma code_lt: "code c < 256"
  by (simp add: code_def)

lemma code_char_of: "n < 256 \<Longrightarrow> code (char_of n) = n"
  by (simp add: code_def)

lemma codes_punctuation:
  "map code punctuation = [33,34,35,36,37,38,39,40,41,42,43,44,45,46,47,58,59,60,61,62,63,64,91,92,93,94,95,96,123,124,125,126]"
  by (simp add: punctuation_def code_def)

lemma in_punctuation_code:
  "c \<in> set punctuation \<longleftrightarrow> code c \<in> set (map code punctuation)"
  by (auto simp: code_inj)

lemma in_punctuation:
  "c \<in> set punctuation \<longleftrightarrow>
     (33 \<le> code c \<and> code c \<le> 47) \<or> (58 \<le> code c \<and> code c \<le> 64) \<or>
     (91 \<le> code c \<and> code c \<le> 96) \<or> (123 \<le> code c \<and> code c \<le> 126)"
  unfolding in_punctuation_code codes_punctuation by (simp; arith)

lemma code_lower_char:
  "code (lower_char c) =
     (if (65 \<le> code c \<and> code c \<le> 90) \<or> (192 \<le> code c \<and> code c \<le> 222 \<and> code c \<noteq> 215)
      then code c + 32 else code c)"
  by (simp add: lower_char_def code_char_of)

lemma lower_char_idem: "lower_char (lower_char c) = lower_char c"
  unfolding code_inj [symmetric] by (simp add: code_lower_char)

lemma lower_char_punctuation: "lower_char c \<in> set punctuation \<longleftrightarrow> c \<in> set punctuation"
  unfolding in_punctuation by (simp add: code_lower_char)

lemma isspace_lower_char: "isspace (lower_char c) \<longleftrightarrow> isspace c"
  by (simp add: isspace_def code_lower_char)

lemma isspace_not_punctuation: "isspace c \<Longrightarrow> c \<notin> set punctuation"
  unfolding in_punctuation by (auto simp add: isspace_def)

lemma isspace_lower_fix: "isspace c \<Longrightarrow> lower_char c = c"
  unfolding code_inj [symmetric] by (auto simp add: code_lower_char isspace_def)


lemma split_ws_map:
  assumes "\<And>c. isspace (f c) \<longleftrightarrow> isspace c"
  shows "split_ws (map f cur) (map f s) = map (map f) (split_ws cur s)"
proof (induction s arbitrary: cur)
  case Nil
  show ?case by simp
next
  case (Cons a s)
  from Cons [of "[]"] Cons [of "cur @ [a]"] show ?case
    by (simp add: assms)
qed

lemma split_ws_filter:
  assumes "\<And>c. isspace c \<Longrightarrow> P c"
  shows "split_ws (filter P cur) (filter P s) =
           filter (\<lambda>w. w \<noteq> []) (map (filter P) (split_ws cur s))"
proof (induction s arbitrary: cur)
  case Nil
  show ?case by simp
next
  case (Cons a s)
  from Cons [of "[]"] Cons [of "cur @ [a]"] show ?case
    by (auto simp add: assms)
qed

lemma split_ws_tokens:
  "w \<in> set (split_ws cur s) \<Longrightarrow> w \<noteq> [] \<and> (\<forall>c \<in> set w. c \<in> set cur \<or> \<not> isspace c)"
proof (induction s arbitrary: cur)
  case Nil
  then show ?case by (auto split: if_splits)
next
  case (Cons a s)
  from Cons.prems Cons.IH [of "[]"] Cons.IH [of "cur @ [a]"] show ?case
    by (auto split: if_splits)
qed

lemma split_ws_Nil: "split_ws cur s = [] \<longleftrightarrow> cur = [] \<and> (\<forall>c \<in> set s. isspace c)"
proof (induction s arbitrary: cur)
  case Nil
  show ?case by simp
next
  case (Cons a s)
  from Cons [of "[]"] Cons [of "cur @ [a]"] show ?case
    by auto
qed

lemma split_normalize_text:
  "split (normalize_text s) = filter (\<lambda>w. w \<noteq> []) (map normalize_text (split s))"
proof -
  have "split (normalize_text s) = map (map lower_char) (split_ws [] (filter (\<lambda>c. c \<notin> set punctuation) s))"
    unfolding split_def normalize_text_eq
    using split_ws_map [of lower_char "[]"] by (simp add: isspace_lower_char)
  also have "split_ws [] (filter (\<lambda>c. c \<notin> set punctuation) s) =
      filter (\<lambda>w. w \<noteq> []) (map (filter (\<lambda>c. c \<notin> set punctuation)) (split_ws [] s))"
    using split_ws_filter [of "\<lambda>c. c \<notin> set punctuation" "[]" s]
    by (simp add: isspace_not_punctuation)
  finally show ?thesis
    by (simp add: split_def filter_map comp_def normalize_text_eq [abs_def])
qed

lemma normalize_text_idem: "normalize_text (normalize_text s) = normalize_text s"
  by (induction s) (simp_all add: normalize_text_eq lower_char_punctuation lower_char_idem)

lemma comprehension_filter:
  "concat (map (\<lambda>x. if P x then [f x] else []) xs) = map f (filter P xs)"
  by (induction xs) simp_all

lemma zip_nth_upt:
  "zip xs ys = map (\<lambda>i. (xs ! i, ys ! i)) [0..<min (length xs) (length ys)]"
  by (rule nth_equalityI) simp_all

lemma mistakes_filter:
  "[(w1, w2). (w1, w2) \<leftarrow> zip xs ys, w1 \<noteq> w2] = filter (\<lambda>(w1, w2). w1 \<noteq> w2) (zip xs ys)"
  by (induction xs ys rule: list_induct2') simp_all

lemma mistakes_spec:
  "filter (\<lambda>(w1, w2). w1 \<noteq> w2) (zip xs ys) = mismatches_spec xs ys"
  unfolding mismatches_spec_def comprehension_filter
  by (subst zip_nth_upt) (simp add: filter_map comp_def)

lemma mistakes_Nil:
  "filter (\<lambda>(w1, w2). w1 \<noteq> w2) (zip xs ys) = [] \<longleftrightarrow>
     (\<forall>i < min (length xs) (length ys). xs ! i = ys ! i)"
  by (auto simp: filter_empty_conv set_zip)

text \<open>
  Claim C1. The scorer normalises both texts and splits them into tokens; its list of
  mismatches is exactly the list of pairs (transcribed token, expected token) at the
  positions below the length of the shorter token sequence where the two tokens differ,
  in order. Tokens beyond the shorter sequence play no part, and the list is empty if and
  only if the tokens agree at every compared position.
\<close>

theorem score_mismatches:
  "fst (evaluate_pronunciation transcribed expected) =
     mismatches_spec (split (normalize_text transcribed)) (split (normalize_text expected)) \<and>
   (fst (evaluate_pronunciation transcribed expected) = [] \<longleftrightarrow>
     (\<forall>i < min (length (split (normalize_text transcribed))) (length (split (normalize_text expected))).
        split (normalize_text transcribed) ! i = split (normalize_text expected) ! i))"
  by (simp add: evaluate_pronunciation_def Let_def mistakes_filter mistakes_spec [symmetric] mistakes_Nil)


text \<open>
  The scenario of the specification: one mismatch, at position 1.
\<close>

theorem score_mismatches_witness:
  "fst (evaluate_pronunciation ''good evening team'' ''Good morning, team!'') = [(''evening'', ''morning'')] \<and>
   (1::nat) < min (length (split (normalize_text ''good evening team'')))
                  (length (split (normalize_text ''Good morning, team!''))) \<and>
   split (normalize_text ''good evening team'') ! 1 \<noteq> split (normalize_text ''Good morning, team!'') ! 1"
proof -
  have a: "split (normalize_text ''good evening team'') = [''good'', ''evening'', ''team'']"
    by code_simp
  have b: "split (normalize_text ''Good morning, team!'') = [''good'', ''morning'', ''team'']"
    by code_simp
  have c: "mismatches_spec [''good'', ''evening'', ''team''] [''good'', ''morning'', ''team''] =
             [(''evening'', ''morning'')]"
    by code_simp
  from score_mismatches [of "''good evening team''" "''Good morning, team!''"] show ?thesis
    unfolding a b c by simp
qed

lemma highlighted_map:
  "[if w1 \<noteq> w2 then colored w Red else colored w Green. (w, w1, w2) \<leftarrow> zip xs (zip xs ys)] =
     map (\<lambda>i. colored (xs ! i) (if xs ! i \<noteq> ys ! i then Red else Green))
       [0..<min (length xs) (length ys)]"
proof -
  have "[if w1 \<noteq> w2 then colored w Red else colored w Green. (w, w1, w2) \<leftarrow> zs] =
          map (\<lambda>(w, w1, w2). colored w (if w1 \<noteq> w2 then Red else Green)) zs" for zs :: "(string \<times> string \<times> string) list"
    by (induction zs) auto
  moreover have "zip xs (zip xs ys) =
      map (\<lambda>i. (xs ! i, xs ! i, ys ! i)) [0..<min (length xs) (length ys)]"
    by (rule nth_equalityI) simp_all
  ultimately show ?thesis by (simp add: comp_def)
qed

text \<open>
  Claim C2, as amended. The annotated text consists of the first
  \<open>min (number of transcribed tokens) (number of expected tokens)\<close> normalised transcribed
  tokens, joined by single spaces, each with the mismatch colour when it differs from the
  expected token at its position and the match colour otherwise. Transcribed tokens beyond
  the length of the expected token sequence are not part of the annotated text.
\<close>

theorem score_annotated:
  "snd (evaluate_pronunciation transcribed expected) =
     join '' ''
       (map (\<lambda>i. colored (split (normalize_text transcribed) ! i)
                 (if split (normalize_text transcribed) ! i \<noteq> split (normalize_text expected) ! i
                  then Red else Green))
          [0..<min (length (split (normalize_text transcribed)))
                   (length (split (normalize_text expected)))])"
  by (simp add: evaluate_pronunciation_def Let_def highlighted_map)

text \<open>
  Claim C2 as stated fails: with two transcribed tokens and one expected token the
  annotated text is the first token alone; the second token does not occur in it.
\<close>

theorem score_annotated_counterexample:
  "split (normalize_text ''hello world'') = [''hello'', ''world''] \<and>
   snd (evaluate_pronunciation ''hello world'' ''hello'') = colored ''hello'' Green \<and>
   \<not> sublist ''world'' (snd (evaluate_pronunciation ''hello world'' ''hello''))"
  by code_simp

text \<open>
  Claim C7. When either text has no token after normalisation (in particular when it
  normalises to the empty string), the scorer returns no mismatch and the empty annotated
  text; so it does for an empty transcribed text and for an empty expected text.
\<close>

theorem score_empty:
  "(split (normalize_text transcribed) = [] \<or> split (normalize_text expected) = []
      \<longrightarrow> evaluate_pronunciation transcribed expected = ([], [])) \<and>
   (normalize_text transcribed = [] \<or> normalize_text expected = []
      \<longrightarrow> evaluate_pronunciation transcribed expected = ([], [])) \<and>
   evaluate_pronunciation [] x = ([], []) \<and>
   evaluate_pronunciation x [] = ([], [])"
proof -
  have "evaluate_pronunciation t e = ([], [])"
    if "split (normalize_text t) = [] \<or> split (normalize_text e) = []" for t e
    using that by (auto simp: evaluate_pronunciation_def)
  moreover have "split [] = []" by (simp add: split_def)
  moreover have "normalize_text [] = []" by (simp add: normalize_text_eq)
  ultimately show ?thesis by auto
qed

text \<open>
  A punctuation-only expected text and a transcribed text of whitespace and punctuation.
\<close>

theorem score_empty_witness:
  "normalize_text ''?!'' = [] \<and> evaluate_pronunciation ''hello'' ''?!'' = ([], []) \<and>
   split (normalize_text '' , '') = [] \<and> evaluate_pronunciation '' , '' ''hello'' = ([], [])"
proof -
  have a: "normalize_text ''?!'' = []" by code_simp
  have b: "split (normalize_text '' , '') = []" by code_simp
  from a b score_empty [of "'' , ''" "''hello''"] score_empty [of "''hello''" "''?!''"]
  show ?thesis by simp
qed

text \<open>
  Claim C8. The normalised text contains no character of \<open>string.punctuation\<close>; it is the
  lower-cased text without its punctuation characters, and lower-casing it again changes
  nothing. The whitespace characters are those of the input, in the same order, so the
  tokens of the normalised text are the normalised tokens of the input that are not empty.
  The result is empty exactly when the input consists of punctuation characters only
  (the empty input included).
\<close>

theorem normalize_text_spec:
  "set (normalize_text s) \<inter> set punctuation = {} \<and>
   normalize_text s = lower (filter (\<lambda>c. c \<notin> set punctuation) s) \<and>
   lower (normalize_text s) = normalize_text s \<and>
   filter isspace (normalize_text s) = filter isspace s \<and>
   split (normalize_text s) = filter (\<lambda>w. w \<noteq> []) (map normalize_text (split s)) \<and>
   (normalize_text s = [] \<longleftrightarrow> set s \<subseteq> set punctuation)"
proof -
  have "set (normalize_text s) \<inter> set punctuation = {}"
    by (auto simp: normalize_text_eq lower_char_punctuation)
  moreover have "normalize_text s = lower (filter (\<lambda>c. c \<notin> set punctuation) s)"
    by (simp add: normalize_text_eq lower_def)
  moreover have "lower (normalize_text s) = normalize_text s"
    by (simp add: normalize_text_eq lower_def lower_char_idem)
  moreover have "filter isspace (normalize_text s) = filter isspace s"
    by (induction s) (auto simp: normalize_text_eq isspace_lower_char isspace_lower_fix
        isspace_not_punctuation)
  moreover note split_normalize_text [of s]
  moreover have "normalize_text s = [] \<longleftrightarrow> set s \<subseteq> set punctuation"
    by (auto simp: normalize_text_eq filter_empty_conv)
  ultimately show ?thesis by blast
qed

text \<open>
  A punctuation-only input, and an input with letters, punctuation and a double space.
\<close>

theorem normalize_text_spec_witness:
  "set ''?!...'' \<subseteq> set punctuation \<and> normalize_text ''?!...'' = [] \<and>
   normalize_text ''Hello,  World!'' = ''hello  world''"
proof -
  have a: "set ''?!...'' \<subseteq> set punctuation" by code_simp
  have b: "normalize_text ''Hello,  World!'' = ''hello  world''" by code_simp
  from a normalize_text_spec [of "''?!...''"] have "normalize_text ''?!...'' = []"
    by blast
  with a b show ?thesis by blast
qed

text \<open>
  Claim C9. Normalising a normalised text changes nothing.
\<close>

theorem normalize_text_idempotent: "normalize_text (normalize_text s) = normalize_text s"
  by (rule normalize_text_idem)

section \<open>Properties of the duration estimator\<close>

lemma py_round_0: "py_round 0 = 0"
  by (simp add: py_round_def)

text \<open>
  Claim C10. A text of whitespace characters only (the empty text included) has no
  word, and for it the estimator returns exactly the minimum duration, when this is not
  negative. The number of words per second must not be zero: the division raises then.
\<close>

theorem estimate_duration_no_words:
  assumes "\<forall>c \<in> set text. isspace c" and "wps \<noteq> 0" and "0 \<le> minDuration"
  shows "length (split text) = 0 \<and>
         calculate_dynamic_duration wps minDuration text = Inr (of_int minDuration)"
proof -
  from assms(1) have "split text = []"
    by (simp add: split_def split_ws_Nil)
  with assms(2,3) show ?thesis
    by (simp add: calculate_dynamic_duration_def round_ndigits_def py_round_0)
qed

text \<open>
  A text of two spaces, 2.5 words per second, a minimum of 3 seconds.
\<close>

theorem estimate_duration_no_words_witness:
  "length (split ''  '') = 0 \<and> calculate_dynamic_duration (5 / 2) 3 ''  '' = Inr 3"
proof -
  have a: "\<forall>c \<in> set ''  ''. isspace c" by code_simp
  have b: "(5 / 2 :: real) \<noteq> 0" "(0::int) \<le> 3" by simp_all
  from estimate_duration_no_words [OF a b] show ?thesis by simp
qed

section \<open>Properties of paths and file names\<close>

lemma split_sep_not_Nil: "split_sep sep s \<noteq> []"
  by (induction s) (simp_all split: list.splits)

lemma split_sep_append:
  "split_sep sep (a @ sep # b) = split_sep sep a @ split_sep sep b"
  by (induction a) (auto simp: split_sep_not_Nil split: list.splits)

lemma split_sep_none: "sep \<notin> set f \<Longrightarrow> split_sep sep f = [f]"
  by (induction f) auto

lemma components_name:
  "f \<noteq> [] \<Longrightarrow> f \<noteq> ''.'' \<Longrightarrow> CHR ''/'' \<notin> set f \<Longrightarrow> components f = [f]"
  by (simp add: components_def split_sep_none)

lemma components_join:
  assumes "f \<noteq> []" "f \<noteq> ''.''" "CHR ''/'' \<notin> set f"
  shows "components (path_join d f) = components d @ [f]"
proof -
  from assms have hd: "hd f \<noteq> CHR ''/''" by (cases f) auto
  show ?thesis
  proof (cases "d = []")
    case True
    with assms hd show ?thesis
      by (simp add: path_join_def components_name) (simp add: components_def)
  next
    case False
    show ?thesis
    proof (cases "last d = CHR ''/''")
      case True
      with False have d: "d = butlast d @ [CHR ''/'']"
        by (metis append_butlast_last_id)
      have "path_join d f = butlast d @ CHR ''/'' # f"
        using True False hd assms(1) d by (simp add: path_join_def)
      moreover have "components d = components (butlast d)"
        using split_sep_append [of "CHR ''/''" "butlast d" "[]"] d
        by (simp add: components_def)
      ultimately show ?thesis
        using assms by (simp add: components_def split_sep_append split_sep_none)
    next
      case True': False
      with False hd assms show ?thesis
        by (simp add: path_join_def components_def split_sep_append split_sep_none)
    qed
  qed
qed

lemma path_join_nul:
  "CHR 0x00 \<notin> set d \<Longrightarrow> CHR 0x00 \<notin> set f \<Longrightarrow> CHR 0x00 \<notin> set (path_join d f)"
  by (auto simp: path_join_def)

lemma path_join_not_Nil: "f \<noteq> [] \<Longrightarrow> path_join d f \<noteq> []"
  by (auto simp: path_join_def)

declare str_nat.simps [simp del]

lemma str_nat_digits: "c \<in> set (str_nat n) \<Longrightarrow> 48 \<le> code c \<and> code c \<le> 57"
proof (induction n rule: str_nat.induct)
  case (1 n)
  show ?case
  proof (cases "n < 10")
    case True
    with "1.prems" show ?thesis
      by (subst (asm) str_nat.simps) (auto simp: code_char_of)
  next
    case False
    have "n mod 10 < 10" by simp
    then have "48 + n mod 10 < 256" by linarith
    with False "1.prems" "1.IH" show ?thesis
      by (subst (asm) str_nat.simps) (auto simp: code_char_of)
  qed
qed

lemma str_nat_not_Nil: "str_nat n \<noteq> []"
  by (subst str_nat.simps) simp

lemma str_nat_inj: "str_nat n = str_nat m \<Longrightarrow> n = m"
proof (induction n arbitrary: m rule: str_nat.induct)
  case (1 n)
  have digit: "a = b"
    if "a < 10" "b < 10" "char_of (48 + a) = (char_of (48 + b) :: char)" for a b :: nat
  proof -
    from that(3) have "code (char_of (48 + a)) = code (char_of (48 + b))"
      by (rule arg_cong)
    with that(1,2) show ?thesis by (simp add: code_char_of)
  qed
  show ?case
  proof (cases "n < 10")
    case n: True
    show ?thesis
    proof (cases "m < 10")
      case True
      with n "1.prems" digit show ?thesis
        by (simp add: str_nat.simps [of n] str_nat.simps [of m])
    next
      case False
      with n "1.prems" str_nat_not_Nil [of "m div 10"] show ?thesis
        by (simp add: str_nat.simps [of n] str_nat.simps [of m])
    qed
  next
    case n: False
    show ?thesis
    proof (cases "m < 10")
      case True
      with n "1.prems" str_nat_not_Nil [of "n div 10"] show ?thesis
        by (simp add: str_nat.simps [of n] str_nat.simps [of m])
    next
      case False
      with n "1.prems" have "str_nat (n div 10) = str_nat (m div 10)"
        and d: "char_of (48 + n mod 10) = (char_of (48 + m mod 10) :: char)"
        by (simp_all add: str_nat.simps [of n] str_nat.simps [of m])
      with n "1.IH" have "n div 10 = m div 10" by simp
      moreover from d digit [of "n mod 10" "m mod 10"] have "n mod 10 = m mod 10" by simp
      ultimately show ?thesis by (metis div_mult_mod_eq)
    qed
  qed
qed

lemma cut_at:
  assumes "a @ c # r = b @ c # r'" "c \<notin> set a" "c \<notin> set b"
  shows "a = b"
proof -
  have "takeWhile (\<lambda>x. x \<noteq> c) (a @ c # r) = a" "takeWhile (\<lambda>x. x \<noteq> c) (b @ c # r') = b"
    using assms(2,3) by (auto simp: takeWhile_tail)
  with assms(1) show ?thesis by simp
qed

lemma word_file_name_inj:
  assumes "word_file_name i w = word_file_name j w'"
  shows "i = j"
proof -
  have u: "CHR ''_'' \<notin> set (str_nat n)" for n
    using str_nat_digits [of "CHR ''_''" n] by (auto simp: code_def)
  from assms have "str_nat (i + 1) @ CHR ''_'' # (w_word w @ ''.wav'') =
      str_nat (j + 1) @ CHR ''_'' # (w_word w' @ ''.wav'')"
    by (simp add: word_file_name_def)
  then have "str_nat (i + 1) = str_nat (j + 1)"
    by (rule cut_at) (rule u)+
  then show ?thesis using str_nat_inj by fastforce
qed

lemma plain_word_file_name:
  "plain_name (word_file_name i w) \<longleftrightarrow>
     CHR ''/'' \<notin> set (w_word w) \<and> CHR 0x00 \<notin> set (w_word w) \<and>
     utf8_length (word_file_name i w) \<le> 255"
proof -
  have a: "word_file_name i w \<noteq> []" "word_file_name i w \<noteq> ''.''" "word_file_name i w \<noteq> ''..''"
    by (simp_all add: word_file_name_def)
  have b: "CHR ''/'' \<in> set (word_file_name i w) \<longleftrightarrow> CHR ''/'' \<in> set (w_word w)"
    "CHR 0x00 \<in> set (word_file_name i w) \<longleftrightarrow> CHR 0x00 \<in> set (w_word w)"
    using str_nat_digits [of "CHR ''/''" "i + 1"] str_nat_digits [of "CHR 0x00" "i + 1"]
    by (auto simp: word_file_name_def code_def)
  from a b show ?thesis by (simp add: plain_name_def)
qed

section \<open>Properties of the word segmenter\<close>

lemma utf8_length_append: "utf8_length (a @ b) = utf8_length a + utf8_length b"
  by (simp add: utf8_length_def)

lemma utf8_length_slash: "utf8_length ''/'' = 1"
  by (simp add: utf8_length_def code_def)

lemma plain_name_simps:
  assumes "plain_name c"
  shows "c \<noteq> []" "CHR 0x00 \<notin> set c" "CHR ''/'' \<notin> set c" "c \<noteq> ''.''" "utf8_length c \<le> 255"
    "split_sep CHR ''/'' c = [c]" "components c = [c]" "\<not> too_long c"
proof -
  from assms show c: "c \<noteq> []" "CHR 0x00 \<notin> set c" "CHR ''/'' \<notin> set c" "c \<noteq> ''.''"
    and l: "utf8_length c \<le> 255"
    by (simp_all add: plain_name_def)
  from c show s: "split_sep CHR ''/'' c = [c]" by (simp add: split_sep_none)
  from c show "components c = [c]" by (simp add: components_name)
  from s l show "\<not> too_long c" by (simp add: too_long_def)
qed

lemma plain_join:
  assumes "plain_name out" "plain_name f"
  shows "path_join out f = out @ ''/'' @ f"
    "components (path_join out f) = [out, f]"
    "CHR 0x00 \<notin> set (path_join out f)"
    "path_join out f \<noteq> []"
    "\<not> too_long (path_join out f)"
proof -
  note o = plain_name_simps [OF assms(1)] and f = plain_name_simps [OF assms(2)]
  from f(1,3) have hd: "hd f \<noteq> CHR ''/''" by (cases f) auto
  from o(1,3) have last: "last out \<noteq> CHR ''/''" by (metis last_in_set)
  from hd last o(1) show j: "path_join out f = out @ ''/'' @ f"
    by (simp add: path_join_def)
  have "components (path_join out f) = components out @ [f]"
    by (rule components_join [OF f(1) f(4) f(3)])
  with o(7) show "components (path_join out f) = [out, f]" by simp
  from o(2) f(2) show "CHR 0x00 \<notin> set (path_join out f)" by (rule path_join_nul)
  from f(1) show "path_join out f \<noteq> []" by (rule path_join_not_Nil)
  have sp: "split_sep CHR ''/'' (out @ CHR ''/'' # f) = [out, f]"
    by (simp add: split_sep_append o(6) f(6))
  have len: "utf8_length (out @ CHR ''/'' # f) = utf8_length out + 1 + utf8_length f"
    by (simp add: utf8_length_def code_def)
  show "\<not> too_long (path_join out f)"
    using o(5) f(5) by (simp add: too_long_def j sp len)
qed

lemma below_missing:
  assumes "wf_fs fs" "fs [out] = None" "prefix [out] q"
  shows "fs q = None"
proof (rule ccontr)
  assume q: "fs q \<noteq> None"
  with assms(2,3) have "strict_prefix [out] q" by (auto simp: strict_prefix_def)
  with q assms(1) have "fs [out] = Some Dir" unfolding wf_fs_def by blast
  with assms(2) show False by simp
qed

lemma reset_plain:
  assumes out: "plain_name out"
    and wf: "wf_fs fs"
    and nofile: "\<forall>x. fs [out] \<noteq> Some (File x)"
  shows "\<exists>fs1. (if path_exists fs out then rmtree fs out else (Inr (), fs)) = (Inr (), fs1) \<and>
           makedirs fs1 out =
             (Inr (), \<lambda>q. if q = [out] then Some Dir else if prefix [out] q then None else fs q)"
proof -
  note o = plain_name_simps [OF out]
  have lk: "lookup fs out = fs [out]"
    using o by (simp add: lookup_def)
  define fs1 where "fs1 = (\<lambda>q. if prefix [out] q then None else fs q)"
  have r: "(if path_exists fs out then rmtree fs out else (Inr (), fs)) = (Inr (), fs1)"
  proof (cases "fs [out]")
    case None
    with below_missing [OF wf] have "fs1 = fs" by (auto simp: fs1_def fun_eq_iff)
    with None lk show ?thesis by (simp add: path_exists_def)
  next
    case (Some nd)
    with nofile have "nd = Dir" by (cases nd) auto
    with Some lk o show ?thesis
      by (simp add: path_exists_def rmtree_def fs1_def)
  qed
  have "fs1 [out] = None" by (simp add: fs1_def)
  then have "makedirs fs1 out = (Inr (), fs1([out] \<mapsto> Dir))"
    using o by (simp add: makedirs_def)
  moreover have "fs1([out] \<mapsto> Dir) =
      (\<lambda>q. if q = [out] then Some Dir else if prefix [out] q then None else fs q)"
    by (auto simp: fs1_def fun_eq_iff)
  ultimately show ?thesis using r by auto
qed

lemma export_plain:
  assumes "plain_name out" "plain_name f"
    and "fs [out] = Some Dir" "fs [out, f] \<noteq> Some Dir"
  shows "export fs (path_join out f) seg = Inr (fs([out, f] \<mapsto> File (Some seg)))"
  using assms(3,4) plain_join(2-5) [OF assms(1,2)]
  by (simp add: export_def)

lemma export_words_append:
  "export_words tm gi out a i pre acc fs = (Inr acc', fs') \<Longrightarrow>
     export_words tm gi out a i (pre @ rest) acc fs =
       export_words tm gi out a (i + length pre) rest acc' fs'"
proof (induction pre arbitrary: i acc fs)
  case Nil
  then show ?case by simp
next
  case (Cons w pre)
  from Cons.prems obtain seg where seg: "word_segment tm gi a w = Inr seg"
    by (cases "word_segment tm gi a w") simp_all
  from Cons.prems seg obtain fs1 where
    ex: "export fs (path_join out (word_file_name i w)) seg = Inr fs1"
    by (cases "export fs (path_join out (word_file_name i w)) seg") (simp_all add: Let_def)
  from Cons.prems seg ex have
    "export_words tm gi out a (i + 1) pre (acc @ [path_join out (word_file_name i w)]) fs1 =
       (Inr acc', fs')"
    by (simp add: Let_def)
  from Cons.IH [OF this] seg ex show ?case by (simp add: Let_def)
qed

lemma export_words_ok:
  assumes out: "plain_name out"
    and dir: "fs [out] = Some Dir" "\<forall>f. fs [out, f] \<noteq> Some Dir"
    and names: "\<forall>(j, w) \<in> set (zip [i..<i + length ws] ws). plain_name (word_file_name j w)"
    and ok: "\<forall>w \<in> set ws. \<exists>seg. word_segment tm gi a w = Inr seg"
  shows "\<exists>fs'. export_words tm gi out a i ws acc fs =
           (Inr (acc @ map (\<lambda>(j, w). path_join out (word_file_name j w))
                         (zip [i..<i + length ws] ws)), fs') \<and>
         (\<forall>q. q \<notin> (\<lambda>(j, w). [out, word_file_name j w]) ` set (zip [i..<i + length ws] ws)
            \<longrightarrow> fs' q = fs q) \<and>
         (\<forall>(j, w) \<in> set (zip [i..<i + length ws] ws). \<forall>seg.
            word_segment tm gi a w = Inr seg
            \<longrightarrow> fs' [out, word_file_name j w] = Some (File (Some seg)))"
  using dir names ok
proof (induction ws arbitrary: i acc fs)
  case Nil
  show ?case by simp
next
  case (Cons w ws)
  let ?f = "word_file_name i w"
  let ?rest = "zip [Suc i..<Suc i + length ws] ws"
  have "[i..<i + length (w # ws)] = i # [Suc i..<Suc i + length ws]"
    using upt_conv_Cons [of i "i + length (w # ws)"] by (simp del: upt_Suc)
  then have z: "zip [i..<i + length (w # ws)] (w # ws) = (i, w) # ?rest"
    by (simp only: zip_Cons_Cons)
  from Cons.prems(4) obtain seg where seg: "word_segment tm gi a w = Inr seg"
    by auto
  define fs1 where "fs1 = fs([out, ?f] \<mapsto> File (Some seg))"
  from Cons.prems(3) have pf: "plain_name ?f"
    and prest: "\<forall>(j, w) \<in> set ?rest. plain_name (word_file_name j w)"
    unfolding z by simp_all
  have ex: "export fs (path_join out ?f) seg = Inr fs1"
    unfolding fs1_def using out pf Cons.prems(1) Cons.prems(2) [rule_format, of ?f]
    by (rule export_plain)
  have fs1: "fs1 [out] = Some Dir" "\<forall>f. fs1 [out, f] \<noteq> Some Dir"
    using Cons.prems(1,2) by (simp_all add: fs1_def)
  from Cons.prems(4) have okrest: "\<forall>w \<in> set ws. \<exists>seg. word_segment tm gi a w = Inr seg"
    by simp
  from Cons.IH [OF fs1 prest okrest, of "acc @ [path_join out ?f]"]
  obtain fs' where
    run: "export_words tm gi out a (Suc i) ws (acc @ [path_join out ?f]) fs1 =
           (Inr ((acc @ [path_join out ?f]) @
              map (\<lambda>(j, w). path_join out (word_file_name j w)) ?rest), fs')"
    and frame: "\<forall>q. q \<notin> (\<lambda>(j, w). [out, word_file_name j w]) ` set ?rest \<longrightarrow> fs' q = fs1 q"
    and content: "\<forall>(j, w) \<in> set ?rest. \<forall>seg.
            word_segment tm gi a w = Inr seg
            \<longrightarrow> fs' [out, word_file_name j w] = Some (File (Some seg))"
    by blast
  have fresh: "[out, ?f] \<notin> (\<lambda>(j, w). [out, word_file_name j w]) ` set ?rest"
  proof
    assume "[out, ?f] \<in> (\<lambda>(j, w). [out, word_file_name j w]) ` set ?rest"
    then obtain j w' where jw: "(j, w') \<in> set ?rest" "word_file_name i w = word_file_name j w'"
      by auto
    from jw(1) have "j \<in> set [Suc i..<Suc i + length ws]" by (rule set_zip_leftD)
    then have "Suc i \<le> j" by (simp only: set_upt atLeastLessThan_iff)
    moreover from jw(2) have "i = j" by (rule word_file_name_inj)
    ultimately show False by simp
  qed
  have first: "fs' [out, ?f] = Some (File (Some seg))"
    using frame fresh by (simp add: fs1_def)
  have "export_words tm gi out a i (w # ws) acc fs =
      (Inr (acc @ map (\<lambda>(j, w). path_join out (word_file_name j w))
                    (zip [i..<i + length (w # ws)] (w # ws))), fs')"
    unfolding z using seg ex run by simp
  moreover have "\<forall>q. q \<notin> (\<lambda>(j, w). [out, word_file_name j w]) `
        set (zip [i..<i + length (w # ws)] (w # ws)) \<longrightarrow> fs' q = fs q"
    unfolding z using frame by (auto simp: fs1_def)
  moreover have "\<forall>(j, w') \<in> set (zip [i..<i + length (w # ws)] (w # ws)). \<forall>seg.
        word_segment tm gi a w' = Inr seg
        \<longrightarrow> fs' [out, word_file_name j w'] = Some (File (Some seg))"
    unfolding z using content first seg by auto
  ultimately show ?case by blast
qed

lemma split_audio_per_word_run:
  assumes out: "plain_name out"
    and wf: "wf_fs fs"
    and nofile: "\<forall>x. fs [out] \<noteq> Some (File x)"
    and audio: "plain_name af" "fs [af] = Some (File (Some a))"
  shows "split_audio_per_word tm gi out fs af ws =
           export_words tm gi out a 0 ws []
             (\<lambda>q. if q = [out] then Some Dir else if prefix [out] q then None else fs q)"
proof -
  define fs2 where
    "fs2 = (\<lambda>q. if q = [out] then Some Dir else if prefix [out] q then None else fs q)"
  from reset_plain [OF out wf nofile] obtain fs1 where
    r1: "(if path_exists fs out then rmtree fs out else (Inr (), fs)) = (Inr (), fs1)"
    and r2: "makedirs fs1 out = (Inr (), fs2)"
    unfolding fs2_def by blast
  note f = plain_name_simps [OF audio(1)]
  from audio(2) nofile have "af \<noteq> out" by auto
  with audio(2) have "fs2 [af] = Some (File (Some a))"
    by (simp add: fs2_def)
  with f have w: "from_wav fs2 af = Inr a"
    by (simp add: from_wav_def lookup_def)
  show ?thesis
    unfolding fs2_def [symmetric] by (simp add: split_audio_per_word_def r1 r2 w)
qed

lemma map_zip_upt:
  "map (\<lambda>(j, w). f j w) (zip [0..<length ws] ws) = map (\<lambda>i. f i (ws ! i)) [0..<length ws]"
  by (rule nth_equalityI) simp_all

lemma in_zip_upt: "i < length ws \<Longrightarrow> (i, ws ! i) \<in> set (zip [0..<length ws] ws)"
  using nth_mem [of i "zip [0..<length ws] ws"] by simp

lemma zip_upt_index:
  "(j, w) \<in> set (zip [0..<length ws] ws) \<Longrightarrow> j < length ws \<and> w = ws ! j"
  by (auto simp: set_zip)

lemma names_zip:
  "\<forall>i < length ws. plain_name (word_file_name i (ws ! i)) \<Longrightarrow>
     \<forall>(j, w) \<in> set (zip [0..<0 + length ws] ws). plain_name (word_file_name j w)"
  using zip_upt_index [of _ _ ws] by auto

lemma segment_run:
  assumes out: "plain_name out"
    and wf: "wf_fs fs"
    and nofile: "\<forall>x. fs [out] \<noteq> Some (File x)"
    and audio: "plain_name af" "fs [af] = Some (File (Some a))"
    and names: "\<forall>i < length ws. plain_name (word_file_name i (ws ! i))"
    and ok: "\<forall>w \<in> set ws. \<exists>seg. word_segment tm gi a w = Inr seg"
  shows "\<exists>fs'. split_audio_per_word tm gi out fs af (ws @ rest) =
           export_words tm gi out a (length ws) rest
             (map (\<lambda>i. path_join out (word_file_name i (ws ! i))) [0..<length ws]) fs' \<and>
         fs' [out] = Some Dir \<and>
         (\<forall>i < length ws. \<forall>seg. word_segment tm gi a (ws ! i) = Inr seg
            \<longrightarrow> fs' [out, word_file_name i (ws ! i)] = Some (File (Some seg))) \<and>
         (\<forall>q. strict_prefix [out] q \<and> fs' q \<noteq> None
            \<longrightarrow> (\<exists>i < length ws. q = [out, word_file_name i (ws ! i)])) \<and>
         (\<forall>q. \<not> prefix [out] q \<longrightarrow> fs' q = fs q)"
proof -
  define fs2 where
    "fs2 = (\<lambda>q. if q = [out] then Some Dir else if prefix [out] q then None else fs q)"
  have dir: "fs2 [out] = Some Dir" "\<forall>f. fs2 [out, f] \<noteq> Some Dir"
    by (simp_all add: fs2_def)
  from export_words_ok [OF out dir names_zip [OF names] ok, of "[]"] obtain fs' where
    run0: "export_words tm gi out a 0 ws [] fs2 =
           (Inr (map (\<lambda>(j, w). path_join out (word_file_name j w)) (zip [0..<length ws] ws)), fs')"
    and frame: "\<forall>q. q \<notin> (\<lambda>(j, w). [out, word_file_name j w]) ` set (zip [0..<length ws] ws)
            \<longrightarrow> fs' q = fs2 q"
    and content: "\<forall>(j, w) \<in> set (zip [0..<length ws] ws). \<forall>seg.
            word_segment tm gi a w = Inr seg
            \<longrightarrow> fs' [out, word_file_name j w] = Some (File (Some seg))"
    by auto
  have run: "export_words tm gi out a 0 ws [] fs2 =
           (Inr (map (\<lambda>i. path_join out (word_file_name i (ws ! i))) [0..<length ws]), fs')"
    using run0 map_zip_upt [of "\<lambda>j w. path_join out (word_file_name j w)" ws] by simp
  have new: "\<exists>i < length ws. q = [out, word_file_name i (ws ! i)]"
    if "q \<in> (\<lambda>(j, w). [out, word_file_name j w]) ` set (zip [0..<length ws] ws)" for q
    using that zip_upt_index [of _ _ ws] by auto
  have res: "split_audio_per_word tm gi out fs af (ws @ rest) =
           export_words tm gi out a (length ws) rest
             (map (\<lambda>i. path_join out (word_file_name i (ws ! i))) [0..<length ws]) fs'"
    unfolding split_audio_per_word_run [OF out wf nofile audio] fs2_def [symmetric]
    using export_words_append [OF run, of rest] by simp
  have p1: "fs' [out] = Some Dir"
  proof -
    have "[out] \<notin> (\<lambda>(j, w). [out, word_file_name j w]) ` set (zip [0..<length ws] ws)"
      by auto
    with frame dir(1) show ?thesis by simp
  qed
  have p2: "\<forall>i < length ws. \<forall>seg. word_segment tm gi a (ws ! i) = Inr seg
            \<longrightarrow> fs' [out, word_file_name i (ws ! i)] = Some (File (Some seg))"
    using content in_zip_upt [of _ ws] by blast
  have p3: "\<forall>q. strict_prefix [out] q \<and> fs' q \<noteq> None
            \<longrightarrow> (\<exists>i < length ws. q = [out, word_file_name i (ws ! i)])"
  proof (intro allI impI)
    fix q assume q: "strict_prefix [out] q \<and> fs' q \<noteq> None"
    have "q \<in> (\<lambda>(j, w). [out, word_file_name j w]) ` set (zip [0..<length ws] ws)"
    proof (rule ccontr)
      assume n: "q \<notin> (\<lambda>(j, w). [out, word_file_name j w]) ` set (zip [0..<length ws] ws)"
      with frame have "fs' q = fs2 q" by blast
      moreover from q have "fs2 q = None" by (auto simp: fs2_def strict_prefix_def)
      ultimately show False using q by simp
    qed
    then show "\<exists>i < length ws. q = [out, word_file_name i (ws ! i)]" by (rule new)
  qed
  have p4: "\<forall>q. \<not> prefix [out] q \<longrightarrow> fs' q = fs q"
  proof (intro allI impI)
    fix q assume q: "\<not> prefix [out] q"
    then have "q \<notin> (\<lambda>(j, w). [out, word_file_name j w]) ` set (zip [0..<length ws] ws)"
      by auto
    with frame have "fs' q = fs2 q" by blast
    with q show "fs' q = fs q" by (auto simp: fs2_def)
  qed
  from res p1 p2 p3 p4 show ?thesis by (intro exI [of _ fs'] conjI)
qed

lemma recorded_ok:
  "plain_name ''split_audio''"
  "wf_fs recorded"
  "\<forall>x. recorded [''split_audio''] \<noteq> Some (File x)"
  "plain_name ''recorded_audio.wav''"
  "recorded [''recorded_audio.wav''] = Some (File (Some one_second))"
proof -
  show p1: "plain_name ''split_audio''" by code_simp
  show p2: "plain_name ''recorded_audio.wav''" by code_simp
  have p3: "plain_name ''word_1_old.wav''" by code_simp
  show "wf_fs recorded"
    unfolding wf_fs_def
  proof (intro allI impI)
    fix q
    assume "recorded q \<noteq> None"
    then have q: "q = [''recorded_audio.wav''] \<or> q = [''split_audio''] \<or>
        q = [''split_audio'', ''word_1_old.wav'']"
      by (simp add: recorded_def split: if_splits)
    have "recorded p = Some Dir" if "strict_prefix p q" "p \<noteq> []" for p
    proof -
      from q that have "p = [''split_audio'']"
        by (auto simp: strict_prefix_def prefix_Cons)
      then show ?thesis by (simp add: recorded_def)
    qed
    with q p1 p2 p3 show "q \<noteq> [] \<and> (\<forall>c \<in> set q. plain_name c) \<and>
        (\<forall>p. strict_prefix p q \<and> p \<noteq> [] \<longrightarrow> recorded p = Some Dir)"
      by auto
  qed
  show "\<forall>x. recorded [''split_audio''] \<noteq> Some (File x)"
    by (simp add: recorded_def)
  show "recorded [''recorded_audio.wav''] = Some (File (Some one_second))"
    by (simp add: recorded_def)
qed

text \<open>
  Claim C3, as amended. Let the output directory and the recording be plain names in the
  working directory of a well-formed file system, the output directory not being a file
  and the recording being a readable WAV file. Let the file name \<open>word_{i+1}_{word}.wav\<close>
  of every word be a plain name (by \<open>plain_word_file_name\<close>: the word text has no \<open>/\<close> and
  no NUL character, and the name has at most 255 bytes), and let the conversion to
  milliseconds and the library's slice succeed for every word. Then the segmenter returns
  a list of as many paths as there are words, in the order of the words: the \<open>i\<close>-th path,
  counted from 0, is \<open>OUTPUT_DIR/word_{i+1}_{word}.wav\<close> with the raw text of the \<open>i\<close>-th
  word. The file of that name holds the clip that the slice returned for the word, and the
  output directory holds no other entry.
\<close>

theorem segment_by_word_files:
  assumes "plain_name out" and "wf_fs fs" and "\<forall>x. fs [out] \<noteq> Some (File x)"
    and "plain_name audio_file" and "fs [audio_file] = Some (File (Some audio))"
    and "\<forall>i < length words. plain_name (word_file_name i (words ! i))"
    and "\<forall>w \<in> set words. \<exists>seg. word_segment to_ms getitem audio w = Inr seg"
  shows "\<exists>files fs'.
      split_audio_per_word to_ms getitem out fs audio_file words = (Inr files, fs') \<and>
      length files = length words \<and>
      (\<forall>i < length words.
         files ! i =
           out @ ''/'' @ ''word_'' @ str_nat (i + 1) @ ''_'' @ w_word (words ! i) @ ''.wav'' \<and>
         (\<exists>seg. word_segment to_ms getitem audio (words ! i) = Inr seg \<and>
            fs' [out, ''word_'' @ str_nat (i + 1) @ ''_'' @ w_word (words ! i) @ ''.wav''] =
              Some (File (Some seg)))) \<and>
      (\<forall>q. strict_prefix [out] q \<and> fs' q \<noteq> None \<longrightarrow>
         (\<exists>i < length words.
            q = [out, ''word_'' @ str_nat (i + 1) @ ''_'' @ w_word (words ! i) @ ''.wav'']))"
proof -
  define files where
    "files = map (\<lambda>i. path_join out (word_file_name i (words ! i))) [0..<length words]"
  from segment_run [OF assms, of "[]"] obtain fs' where
    run: "split_audio_per_word to_ms getitem out fs audio_file words = (Inr files, fs')"
    and content: "\<forall>i < length words. \<forall>seg. word_segment to_ms getitem audio (words ! i) = Inr seg
            \<longrightarrow> fs' [out, word_file_name i (words ! i)] = Some (File (Some seg))"
    and only: "\<forall>q. strict_prefix [out] q \<and> fs' q \<noteq> None
            \<longrightarrow> (\<exists>i < length words. q = [out, word_file_name i (words ! i)])"
    unfolding files_def by auto
  have len: "length files = length words" by (simp add: files_def)
  have each: "files ! i =
           out @ ''/'' @ ''word_'' @ str_nat (i + 1) @ ''_'' @ w_word (words ! i) @ ''.wav'' \<and>
         (\<exists>seg. word_segment to_ms getitem audio (words ! i) = Inr seg \<and>
            fs' [out, ''word_'' @ str_nat (i + 1) @ ''_'' @ w_word (words ! i) @ ''.wav''] =
              Some (File (Some seg)))"
    if i: "i < length words" for i
  proof -
    from i assms(6) have "plain_name (word_file_name i (words ! i))" by blast
    from plain_join(1) [OF assms(1) this] i
    have "files ! i = out @ ''/'' @ word_file_name i (words ! i)"
      by (simp add: files_def)
    moreover from i assms(7) obtain seg where
      seg: "word_segment to_ms getitem audio (words ! i) = Inr seg"
      by (meson nth_mem)
    moreover from content i seg
    have "fs' [out, word_file_name i (words ! i)] = Some (File (Some seg))"
      by blast
    ultimately show ?thesis
      unfolding word_file_name_def by blast
  qed
  from run len each only [unfolded word_file_name_def] show ?thesis
    by (intro exI [of _ files] exI [of _ fs'] conjI allI impI) blast+
qed

text \<open>
  The scenario of the specification: the words \<open>hi\<close> (0 to 0.5 s) and \<open>there\<close> (0.5 to 1 s)
  over a recording of one second yield the files \<open>word_1_hi.wav\<close> and \<open>word_2_there.wav\<close>
  with the two halves of the recording, and the file of an earlier call is gone.
\<close>

theorem segment_by_word_files_witness:
  "fst (split_audio_per_word int_ms getitem_slice ''split_audio'' recorded ''recorded_audio.wav''
          hi_there) =
     Inr [''split_audio/word_1_hi.wav'', ''split_audio/word_2_there.wav''] \<and>
   snd (split_audio_per_word int_ms getitem_slice ''split_audio'' recorded ''recorded_audio.wav''
          hi_there) [''split_audio'', ''word_1_hi.wav''] =
     Some (File (Some \<lparr>frame_rate = 8, frames = [1, 2, 3, 4]\<rparr>)) \<and>
   snd (split_audio_per_word int_ms getitem_slice ''split_audio'' recorded ''recorded_audio.wav''
          hi_there) [''split_audio'', ''word_2_there.wav''] =
     Some (File (Some \<lparr>frame_rate = 8, frames = [5, 6, 7, 8]\<rparr>)) \<and>
   snd (split_audio_per_word int_ms getitem_slice ''split_audio'' recorded ''recorded_audio.wav''
          hi_there) [''split_audio'', ''word_1_old.wav''] = None"
proof -
  have l2: "length hi_there = 2" by (simp add: hi_there_def)
  have "plain_name (word_file_name 0 (hi_there ! 0))" "plain_name (word_file_name 1 (hi_there ! 1))"
    by code_simp+
  then have names: "\<forall>i < length hi_there. plain_name (word_file_name i (hi_there ! i))"
    unfolding l2 by (auto simp: less_2_cases_iff)
  have s0: "word_segment int_ms getitem_slice one_second (hi_there ! 0) =
      Inr \<lparr>frame_rate = 8, frames = [1, 2, 3, 4]\<rparr>"
    by code_simp
  have s1: "word_segment int_ms getitem_slice one_second (hi_there ! 1) =
      Inr \<lparr>frame_rate = 8, frames = [5, 6, 7, 8]\<rparr>"
    by code_simp
  from s0 s1 have ok: "\<forall>w \<in> set hi_there. \<exists>seg.
      word_segment int_ms getitem_slice one_second w = Inr seg"
    by (simp add: hi_there_def)
  have n0: "''word_'' @ str_nat (0 + 1) @ ''_'' @ w_word (hi_there ! 0) @ ''.wav'' = ''word_1_hi.wav''"
    by code_simp
  have n1: "''word_'' @ str_nat (1 + 1) @ ''_'' @ w_word (hi_there ! 1) @ ''.wav'' =
      ''word_2_there.wav''"
    by code_simp
  from segment_by_word_files [OF recorded_ok names ok]
  obtain files fs' where
    run: "split_audio_per_word int_ms getitem_slice ''split_audio'' recorded
            ''recorded_audio.wav'' hi_there = (Inr files, fs')"
    and len: "length files = length hi_there"
    and nth: "\<forall>i < length hi_there.
         files ! i =
           ''split_audio'' @ ''/'' @ ''word_'' @ str_nat (i + 1) @ ''_'' @ w_word (hi_there ! i) @ ''.wav'' \<and>
         (\<exists>seg. word_segment int_ms getitem_slice one_second (hi_there ! i) = Inr seg \<and>
            fs' [''split_audio'', ''word_'' @ str_nat (i + 1) @ ''_'' @ w_word (hi_there ! i) @ ''.wav''] =
              Some (File (Some seg)))"
    and only: "\<forall>q. strict_prefix [''split_audio''] q \<and> fs' q \<noteq> None \<longrightarrow>
         (\<exists>i < length hi_there.
            q = [''split_audio'', ''word_'' @ str_nat (i + 1) @ ''_'' @ w_word (hi_there ! i) @ ''.wav''])"
    by blast
  from nth l2 have
    "files ! 0 = ''split_audio'' @ ''/'' @ ''word_'' @ str_nat (0 + 1) @ ''_'' @ w_word (hi_there ! 0) @ ''.wav'' \<and>
     (\<exists>seg. word_segment int_ms getitem_slice one_second (hi_there ! 0) = Inr seg \<and>
        fs' [''split_audio'', ''word_'' @ str_nat (0 + 1) @ ''_'' @ w_word (hi_there ! 0) @ ''.wav''] =
          Some (File (Some seg)))"
    by (simp del: append.simps)
  then have f0: "files ! 0 = ''split_audio/word_1_hi.wav''"
    and c0: "fs' [''split_audio'', ''word_1_hi.wav''] =
      Some (File (Some \<lparr>frame_rate = 8, frames = [1, 2, 3, 4]\<rparr>))"
    unfolding n0 s0 by simp_all
  from nth l2 have
    "files ! 1 = ''split_audio'' @ ''/'' @ ''word_'' @ str_nat (1 + 1) @ ''_'' @ w_word (hi_there ! 1) @ ''.wav'' \<and>
     (\<exists>seg. word_segment int_ms getitem_slice one_second (hi_there ! 1) = Inr seg \<and>
        fs' [''split_audio'', ''word_'' @ str_nat (1 + 1) @ ''_'' @ w_word (hi_there ! 1) @ ''.wav''] =
          Some (File (Some seg)))"
    by (simp del: append.simps)
  then have f1: "files ! 1 = ''split_audio/word_2_there.wav''"
    and c1: "fs' [''split_audio'', ''word_2_there.wav''] =
      Some (File (Some \<lparr>frame_rate = 8, frames = [5, 6, 7, 8]\<rparr>))"
    unfolding n1 s1 by simp_all
  from len l2 f0 f1 have files:
    "files = [''split_audio/word_1_hi.wav'', ''split_audio/word_2_there.wav'']"
    by (intro nth_equalityI) (auto simp: less_Suc_eq numeral_2_eq_2)
  have old: "fs' [''split_audio'', ''word_1_old.wav''] = None"
  proof (rule ccontr)
    assume "fs' [''split_audio'', ''word_1_old.wav''] \<noteq> None"
    moreover have "strict_prefix [''split_audio''] [''split_audio'', ''word_1_old.wav'']"
      by (simp add: strict_prefix_def)
    ultimately obtain i where i: "i < length hi_there"
      "[''split_audio'', ''word_1_old.wav''] =
         [''split_audio'', ''word_'' @ str_nat (i + 1) @ ''_'' @ w_word (hi_there ! i) @ ''.wav'']"
      using only by blast
    from i(1) l2 have "i = 0 \<or> i = 1" by auto
    then show False
    proof
      assume "i = 0"
      with i(2) show False unfolding \<open>i = 0\<close> n0 by simp
    next
      assume "i = 1"
      with i(2) show False unfolding \<open>i = 1\<close> n1 by simp
    qed
  qed
  from run files c0 c1 old show ?thesis by simp
qed

text \<open>
  Claim C3 as stated fails for some word timings. A word text with a path separator names
  a file in a directory that does not exist, and the export raises \<open>FileNotFoundError\<close>. A
  start two seconds before the end of a recording of one second makes the library's slice
  raise \<open>TooManyMissingFrames\<close>. No list is returned in either case.
\<close>

theorem segment_by_word_files_counterexample:
  "fst (split_audio_per_word int_ms getitem_slice ''split_audio'' recorded ''recorded_audio.wav''
     [\<lparr>w_word = ''a/b'', w_start = 0, w_end = 1 / 2\<rparr>]) = Inl FileNotFoundError \<and>
   fst (split_audio_per_word int_ms getitem_slice ''split_audio'' recorded ''recorded_audio.wav''
     [\<lparr>w_word = ''hi'', w_start = - 2, w_end = 1 / 2\<rparr>]) = Inl TooManyMissingFrames"
  by code_simp






end
